theory Spec2Isabelle
  imports Main
begin

section \<open>Text, the Unicode database and the string methods the program calls\<close>

text \<open>
  A Python \<^verbatim>\<open>str\<close> is a list of code points, and \<open>py\<close> turns a literal into such a text.

  The patterns of the program are \<^verbatim>\<open>str\<close> patterns compiled without \<^verbatim>\<open>re.ASCII\<close>, so
  \<^verbatim>\<open>\d\<close>, \<^verbatim>\<open>\s\<close>, \<^verbatim>\<open>\w\<close> and \<^verbatim>\<open>\b\<close>, like \<^verbatim>\<open>str.strip\<close> and \<^verbatim>\<open>str.capitalize\<close>,
  follow the Unicode database of the interpreter. Its ASCII part is written out below;
  for the code points above 127 the database is a parameter, the record \<open>ucd\<close>:
  \<^item> \<open>decimal\<close>: the decimal digits (\<^verbatim>\<open>\d\<close>);
  \<^item> \<open>whitespace\<close>: the whitespace of \<^verbatim>\<open>str.isspace\<close> (\<^verbatim>\<open>\s\<close> and \<^verbatim>\<open>strip\<close>);
  \<^item> \<open>alnum\<close>: the letters and numbers of \<^verbatim>\<open>str.isalnum\<close>, to which \<^verbatim>\<open>\w\<close> adds the
    underscore (every decimal digit is one of them);
  \<^item> \<open>title_full\<close>: the title-case mapping of a code point, one or more code points;
  \<^item> \<open>lower_full\<close>: the lower-case mapping of the code point at an index of a text, one
    or more code points (the mapping of a capital sigma depends on its neighbours).

  The program's \<^verbatim>\<open>print\<close> calls are not modelled.
\<close>

type_synonym str = "nat list"

definition cp :: "char \<Rightarrow> nat" where
  "cp c = of_char c"

definition py :: "string \<Rightarrow> str" where
  "py s = map cp s"

record ucd =
  decimal :: "nat \<Rightarrow> bool"
  whitespace :: "nat \<Rightarrow> bool"
  alnum :: "nat \<Rightarrow> bool"
  title_full :: "nat \<Rightarrow> str"
  lower_full :: "str \<Rightarrow> nat \<Rightarrow> str"

text \<open>The digits \<^verbatim>\<open>0\<close> to \<^verbatim>\<open>9\<close> are the code points 48 to 57.\<close>

definition is_digit :: "ucd \<Rightarrow> nat \<Rightarrow> bool" where
  "is_digit U c = (if c < 128 then 48 \<le> c \<and> c \<le> 57 else decimal U c)"

text \<open>ASCII whitespace: tab, line feed, vertical tab, form feed, carriage return, the four
  separators 28 to 31 and the space.\<close>

definition is_space :: "ucd \<Rightarrow> nat \<Rightarrow> bool" where
  "is_space U c =
     (if c < 128 then c \<in> set [9, 10, 11, 12, 13, 28, 29, 30, 31, 32] else whitespace U c)"

definition is_upper_ascii :: "nat \<Rightarrow> bool" where
  "is_upper_ascii c = (65 \<le> c \<and> c \<le> 90)"

definition is_lower_ascii :: "nat \<Rightarrow> bool" where
  "is_lower_ascii c = (97 \<le> c \<and> c \<le> 122)"

text \<open>The word characters of \<^verbatim>\<open>\w\<close>; the underscore is the code point 95.\<close>

definition is_word :: "ucd \<Rightarrow> nat \<Rightarrow> bool" where
  "is_word U c =
     (if c < 128 then is_lower_ascii c \<or> is_upper_ascii c \<or> (48 \<le> c \<and> c \<le> 57) \<or> c = 95
      else alnum U c \<or> decimal U c)"

text \<open>The case mappings of the ASCII letters.\<close>

definition to_upper :: "nat \<Rightarrow> nat" where
  "to_upper c = (if is_lower_ascii c then c - 32 else c)"

definition to_lower :: "nat \<Rightarrow> nat" where
  "to_lower c = (if is_upper_ascii c then c + 32 else c)"

text \<open>\<^verbatim>\<open>s.strip()\<close>: whitespace removed at both ends.\<close>

definition strip :: "ucd \<Rightarrow> str \<Rightarrow> str" where
  "strip U s = rev (dropWhile (is_space U) (rev (dropWhile (is_space U) s)))"

text \<open>\<^verbatim>\<open>s.capitalize()\<close>: the title-case mapping of the first code point, followed by the
  lower-case mapping of every other code point of \<open>s\<close>.\<close>

definition title_at :: "ucd \<Rightarrow> nat \<Rightarrow> str" where
  "title_at U c = (if c < 128 then [to_upper c] else title_full U c)"

definition lower_at :: "ucd \<Rightarrow> str \<Rightarrow> nat \<Rightarrow> str" where
  "lower_at U s i = (if s ! i < 128 then [to_lower (s ! i)] else lower_full U s i)"

definition capitalize :: "ucd \<Rightarrow> str \<Rightarrow> str" where
  "capitalize U s =
     (case s of
        [] \<Rightarrow> []
      | c # cs \<Rightarrow> title_at U c @ concat (map (lower_at U s) [1..<length s]))"

section \<open>The backtracking matcher of \<^verbatim>\<open>re\<close>, for the operators the program uses\<close>

text \<open>
  \<^item> \<open>Chars P\<close>: one character of the class \<open>P\<close> (\<^verbatim>\<open>\d\<close>, \<^verbatim>\<open>[.,;]\<close>, \<^verbatim>\<open>.\<close>, a literal);
  \<^item> \<open>Seq\<close>: concatenation; \<open>Alt\<close>: \<^verbatim>\<open>a|b\<close>, the left alternative first;
  \<^item> \<open>Opt r\<close>: greedy \<^verbatim>\<open>r?\<close>; \<open>Star P\<close>: greedy \<^verbatim>\<open>*\<close> over a one-character class;
  \<^item> \<open>WordB W\<close>: \<^verbatim>\<open>\b\<close>, where \<open>W\<close> is the class of word characters;
  \<^item> \<open>Eos\<close>: \<^verbatim>\<open>$\<close> without \<^verbatim>\<open>re.MULTILINE\<close> (the end of the text, or just before a line
    feed that ends the text).

  \<open>rmatch r p cs k\<close> matches \<open>r\<close> at the front of \<open>cs\<close>, where \<open>p\<close> is the character before
  \<open>cs\<close> (if any), and hands what is left to the continuation \<open>k\<close>; when \<open>k\<close> fails the
  matcher backtracks into the last choice, greedy choices first.
\<close>

datatype regex =
    Chars "nat \<Rightarrow> bool"
  | Seq regex regex
  | Alt regex regex
  | Opt regex
  | Star "nat \<Rightarrow> bool"
  | WordB "nat \<Rightarrow> bool"
  | Eos

definition nl :: nat where
  "nl = 10"

definition word_at :: "(nat \<Rightarrow> bool) \<Rightarrow> nat option \<Rightarrow> bool" where
  "word_at W p = (case p of None \<Rightarrow> False | Some c \<Rightarrow> W c)"

definition first_char :: "str \<Rightarrow> nat option" where
  "first_char cs = (case cs of [] \<Rightarrow> None | c # _ \<Rightarrow> Some c)"

fun rmatch :: "regex \<Rightarrow> nat option \<Rightarrow> str \<Rightarrow> (nat option \<Rightarrow> str \<Rightarrow> str option) \<Rightarrow> str option" where
  "rmatch (Chars P) p cs k =
     (case cs of [] \<Rightarrow> None | c # cs' \<Rightarrow> if P c then k (Some c) cs' else None)"
| "rmatch (Seq r1 r2) p cs k = rmatch r1 p cs (\<lambda>p' cs'. rmatch r2 p' cs' k)"
| "rmatch (Alt r1 r2) p cs k =
     (case rmatch r1 p cs k of Some x \<Rightarrow> Some x | None \<Rightarrow> rmatch r2 p cs k)"
| "rmatch (Opt r) p cs k =
     (case rmatch r p cs k of Some x \<Rightarrow> Some x | None \<Rightarrow> k p cs)"
| "rmatch (Star P) p cs k =
     (case cs of
        [] \<Rightarrow> k p cs
      | c # cs' \<Rightarrow>
          if P c then (case rmatch (Star P) (Some c) cs' k of Some x \<Rightarrow> Some x | None \<Rightarrow> k p cs)
          else k p cs)"
| "rmatch (WordB W) p cs k = (if word_at W p \<noteq> word_at W (first_char cs) then k p cs else None)"
| "rmatch Eos p cs k = (if cs = [] \<or> cs = [nl] then k p cs else None)"

text \<open>
  \<^verbatim>\<open>re.search\<close>: the match is tried at every start position from the left; the result
  is the text before the match, the matched text and the text after it.
\<close>

fun search :: "regex \<Rightarrow> nat option \<Rightarrow> str \<Rightarrow> (str \<times> str \<times> str) option" where
  "search r p cs =
     (case rmatch r p cs (\<lambda>_ rest. Some rest) of
        Some rest \<Rightarrow> Some ([], take (length cs - length rest) cs, rest)
      | None \<Rightarrow>
          (case cs of
             [] \<Rightarrow> None
           | c # cs' \<Rightarrow> map_option (\<lambda>(pre, mat, rest). (c # pre, mat, rest)) (search r (Some c) cs')))"

declare search.simps [simp del]

text \<open>
  The scan behind \<^verbatim>\<open>re.findall\<close>, \<^verbatim>\<open>re.split\<close> and \<^verbatim>\<open>re.sub\<close>: successive
  non-overlapping matches from the left, each with the unmatched text before it, and the
  unmatched tail. Every pattern of the program consumes at least one character (lemmas
  \<open>time_re_consumes\<close>, \<open>split_re_consumes\<close>, \<open>title_re_consumes\<close>), so the library's rules
  for empty matches are never exercised; the scan stops at one.
\<close>

function scan :: "regex \<Rightarrow> nat option \<Rightarrow> str \<Rightarrow> (str \<times> str) list \<times> str" where
  "scan r p cs =
     (case search r p cs of
        None \<Rightarrow> ([], cs)
      | Some (pre, mat, rest) \<Rightarrow>
          if mat = [] then ([(pre, mat)], rest)
          else (case scan r (Some (last mat)) rest of (ms, tail) \<Rightarrow> ((pre, mat) # ms, tail)))"
  by pat_completeness auto
termination
proof -
  have shorter: "search r q ds = Some (a, b, c) \<Longrightarrow> b \<noteq> [] \<Longrightarrow> length c < length ds"
    for r q ds a b c
  proof (induction ds arbitrary: q a)
    case Nil
    then show ?case by (auto simp: search.simps [of r q "[]"] split: option.splits)
  next
    case (Cons d ds)
    show ?case
    proof (cases "rmatch r q (d # ds) (\<lambda>_ rest. Some rest)")
      case None
      with Cons.prems obtain a' where "search r (Some d) ds = Some (a', b, c)"
        by (auto simp: search.simps [of r q "d # ds"] split: option.splits)
      with Cons.IH Cons.prems(2) show ?thesis by fastforce
    next
      case (Some e)
      with Cons.prems show ?thesis
        by (auto simp: search.simps [of r q "d # ds"])
    qed
  qed
  show ?thesis
    by (relation "measure (\<lambda>(r, p, cs). length cs)") (auto dest: shorter)
qed

declare scan.simps [simp del]

definition re_findall :: "regex \<Rightarrow> str \<Rightarrow> str list" where
  "re_findall r s = map snd (fst (scan r None s))"

definition re_split :: "regex \<Rightarrow> str \<Rightarrow> str list" where
  "re_split r s = (case scan r None s of (ms, tail) \<Rightarrow> map fst ms @ [tail])"

text \<open>\<^verbatim>\<open>re.sub(r, '', s)\<close>: every match replaced by the empty text.\<close>

definition re_sub_empty :: "regex \<Rightarrow> str \<Rightarrow> str" where
  "re_sub_empty r s = (case scan r None s of (ms, tail) \<Rightarrow> concat (map fst ms) @ tail)"

text \<open>\<^verbatim>\<open>re.search(r, s)\<close> followed by \<^verbatim>\<open>.group()\<close>; \<open>None\<close> when nothing matches.\<close>

definition re_search :: "regex \<Rightarrow> str \<Rightarrow> str option" where
  "re_search r s = map_option (\<lambda>(pre, mat, rest). mat) (search r None s)"

section \<open>The helpers of \<^verbatim>\<open>app.py\<close>\<close>

text \<open>A literal letter under \<^verbatim>\<open>re.I\<close> matches both of its cases. No code point above 127
  matches the letters \<^verbatim>\<open>a\<close>, \<^verbatim>\<open>m\<close> and \<^verbatim>\<open>p\<close> that way.\<close>

definition ci :: "nat \<Rightarrow> regex" where
  "ci l = Chars (\<lambda>c. to_lower c = l)"

definition lit :: "nat \<Rightarrow> regex" where
  "lit l = Chars (\<lambda>c. c = l)"

text \<open>
  \<^verbatim>\<open>(\d{1,2}(?::\d{2})?\s*(?:am|pm)?)\<close> with \<^verbatim>\<open>re.I\<close>. The bounded repeat \<^verbatim>\<open>\d{1,2}\<close> is
  a digit and a greedy optional digit; \<^verbatim>\<open>\d{2}\<close> is two digits. The only group is the
  whole pattern, so \<^verbatim>\<open>re.findall\<close> returns the matched texts.
\<close>

definition time_re :: "ucd \<Rightarrow> regex" where
  "time_re U =
     Seq (Seq (Chars (is_digit U)) (Opt (Chars (is_digit U))))
    (Seq (Opt (Seq (lit (cp CHR '':'')) (Seq (Chars (is_digit U)) (Chars (is_digit U)))))
    (Seq (Star (is_space U))
         (Opt (Alt (Seq (ci (cp CHR ''a'')) (ci (cp CHR ''m'')))
                   (Seq (ci (cp CHR ''p'')) (ci (cp CHR ''m'')))))))"

definition parse_time_range :: "ucd \<Rightarrow> str \<Rightarrow> str list" where
  "parse_time_range U text = re_findall (time_re U) text"

text \<open>\<^verbatim>\<open>[.,;]\<close>\<close>

definition split_re :: regex where
  "split_re = Chars (\<lambda>c. c \<in> set (py ''.,;''))"

text \<open>\<^verbatim>\<open>\b\d.*$\<close>: without \<^verbatim>\<open>re.DOTALL\<close> the dot is any character but the line feed.\<close>

definition title_re :: "ucd \<Rightarrow> regex" where
  "title_re U =
     Seq (WordB (is_word U)) (Seq (Chars (is_digit U)) (Seq (Star (\<lambda>c. c \<noteq> nl)) Eos))"

record task =
  title :: str
  start :: "str option"
  end_time :: "str option"

text \<open>An exception that leaves a function; \<open>Inl\<close> of a result is the raise.\<close>

datatype exn = ValueError

text \<open>\<^verbatim>\<open>start, end = xs\<close>: unpacking raises \<^verbatim>\<open>ValueError\<close> unless \<open>xs\<close> has two elements.\<close>

fun unpack2 :: "'a list \<Rightarrow> exn + ('a \<times> 'a)" where
  "unpack2 [a, b] = Inr (a, b)"
| "unpack2 _ = Inl ValueError"

text \<open>\<^verbatim>\<open>[s.strip() for s in re.split(r'[.,;]', raw_text) if s.strip()]\<close>\<close>

definition sentences :: "ucd \<Rightarrow> str \<Rightarrow> str list" where
  "sentences U raw_text =
     map (strip U) (filter (\<lambda>s. strip U s \<noteq> []) (re_split split_re raw_text))"

text \<open>The body of the \<^verbatim>\<open>for\<close> loop of \<^verbatim>\<open>build_tasks_from_text\<close>, with the list
  \<open>tasks\<close> built so far; \<^verbatim>\<open>(times + [None])[:2]\<close> is the slice that is unpacked.\<close>

fun tasks_loop :: "ucd \<Rightarrow> str list \<Rightarrow> task list \<Rightarrow> exn + task list" where
  "tasks_loop U [] tasks = Inr tasks"
| "tasks_loop U (s # ss) tasks =
     (let times = parse_time_range U s in
      if times = [] then tasks_loop U ss tasks
      else
        (case unpack2 (take 2 (map Some times @ [None])) of
           Inl e \<Rightarrow> Inl e
         | Inr (start', end') \<Rightarrow>
             let title' = capitalize U (strip U (re_sub_empty (title_re U) s));
                 title'' = (if title' = [] then py ''Task'' else title')
             in tasks_loop U ss (tasks @ [\<lparr>title = title'', start = start', end_time = end'\<rparr>])))"

definition build_tasks_from_text :: "ucd \<Rightarrow> str \<Rightarrow> exn + task list" where
  "build_tasks_from_text U raw_text = tasks_loop U (sentences U raw_text) []"

section \<open>The suggestion generator\<close>

text \<open>
  A decoded JSON value; the number type is left open, and an object is the list of the
  items of the decoded \<^verbatim>\<open>dict\<close>, which has every key once. \<^verbatim>\<open>json.loads\<close> is the
  library's decoder, a parameter of the model: \<open>None\<close> is its \<^verbatim>\<open>JSONDecodeError\<close>.

  The chat completion is the remote call. \<open>Raises\<close> is any exception raised between the
  request and reading \<^verbatim>\<open>completion.choices[0].message.content\<close>; \<open>Content\<close> is the text
  received.

  \<open>client\<close> and \<open>sentiment_pipeline\<close> are the two module globals set at import time, \<open>None\<close>
  when their \<^verbatim>\<open>try\<close> block failed. The pipeline returns a list with one result for one
  text, of which \<^verbatim>\<open>[0]\<close> is taken; the model's pipeline returns that result. \<open>unicode\<close>
  is the Unicode database of the interpreter and \<open>is_zero\<close> tells whether a number is zero.
\<close>

datatype 'n json =
    JNull | JBool bool | JNum 'n | JStr str | JArr "'n json list" | JObj "(str \<times> 'n json) list"

datatype completion = Raises | Content str

record 'n senti =
  senti_label :: str
  senti_score :: 'n

record 'n runtime =
  unicode :: ucd
  client :: "(str \<Rightarrow> completion) option"
  sentiment_pipeline :: "(str \<Rightarrow> 'n senti) option"
  json_loads :: "str \<Rightarrow> 'n json option"
  is_zero :: "'n \<Rightarrow> bool"

text \<open>\<^verbatim>\<open>{x}\<close> in an f-string: \<^verbatim>\<open>None\<close> is printed as \<^verbatim>\<open>None\<close>.\<close>

definition fmt :: "str option \<Rightarrow> str" where
  "fmt x = (case x of None \<Rightarrow> py ''None'' | Some v \<Rightarrow> v)"

fun join :: "str \<Rightarrow> str list \<Rightarrow> str" where
  "join sep [] = []"
| "join sep [x] = x"
| "join sep (x # y # ys) = x @ sep @ join sep (y # ys)"

definition schedule_text :: "task list \<Rightarrow> str" where
  "schedule_text ts =
     join [nl] (map (\<lambda>t. py ''- '' @ title t @ py '' ('' @ fmt (start t) @ py '' - ''
                          @ fmt (end_time t) @ py '')'') ts)"

definition quoted :: "str \<Rightarrow> str" where
  "quoted x = [34] @ x @ [34]"

text \<open>The pictographs and signs of the prompt, by code point: hot beverage, person in
  lotus position, pedestrian, warning sign with its variation selector, em dash.\<close>

definition prompt :: "task list \<Rightarrow> str \<Rightarrow> str" where
  "prompt ts emotion = concat
    [[nl], py ''You are a mindful productivity assistant.'', [nl],
     py ''The user has this schedule:'', [nl],
     schedule_text ts, [nl],
     [nl],
     py ''The user'', [39], py ''s emotional state is: '', emotion, py ''.'', [nl],
     [nl],
     py ''Generate 3 short, *time-specific* wellness or rest activities that fit between tasks.'', [nl],
     py ''Each suggestion must include:'', [nl],
     py ''- '', quoted (py ''title''), py '': short label (e.g., '',
        quoted (py ''Tea break '' @ [0x2615]), py '', '',
        quoted (py ''Stretch '' @ [0x1F9D8]), py '', '',
        quoted (py ''Quick walk '' @ [0x1F6B6]), py '')'', [nl],
     py ''- '', quoted (py ''start''), py '': start time (HH:MM 24h or 12h with am/pm)'', [nl],
     py ''- '', quoted (py ''end''), py '': end time (HH:MM 24h or 12h with am/pm)'', [nl],
     [nl],
     [0x26A0, 0xFE0F], py '' Respond only with valid JSON '', [0x2014],
        py '' no extra text, no explanations.'', [nl],
     [nl],
     py ''Example:'', [nl],
     py ''['', [nl],
     py ''  { '', quoted (py ''title''), py '': '', quoted (py ''Stretch break '' @ [0x1F9D8]), py '', '',
        quoted (py ''start''), py '': '', quoted (py ''10:45''), py '', '',
        quoted (py ''end''), py '': '', quoted (py ''10:55''), py '' },'', [nl],
     py ''  { '', quoted (py ''title''), py '': '', quoted (py ''Mindful tea '' @ [0x2615]), py '', '',
        quoted (py ''start''), py '': '', quoted (py ''15:10''), py '', '',
        quoted (py ''end''), py '': '', quoted (py ''15:25''), py '' }'', [nl],
     py '']'', [nl]]"

text \<open>\<^verbatim>\<open>\[.*\]\<close> with \<^verbatim>\<open>re.DOTALL\<close>: the dot is any character.\<close>

definition json_re :: regex where
  "json_re = Seq (lit (cp CHR ''['')) (Seq (Star (\<lambda>c. True)) (lit (cp CHR '']'')))"

text \<open>
  The result is the value returned and the list of prompts sent to the remote model (the
  network calls made). Everything from the call to the decoding is inside the
  \<^verbatim>\<open>try\<close>, whose \<^verbatim>\<open>except Exception\<close> returns the empty list.
\<close>

definition generate_dynamic_suggestions ::
    "'n runtime \<Rightarrow> task list \<Rightarrow> str \<Rightarrow> 'n json \<times> str list" where
  "generate_dynamic_suggestions rt ts emotion =
     (if ts = [] \<or> client rt = None then (JArr [], [])
      else
        (case client rt of
           None \<Rightarrow> (JArr [], [])
         | Some create \<Rightarrow>
            (case create (prompt ts emotion) of
               Raises \<Rightarrow> (JArr [], [prompt ts emotion])
             | Content c \<Rightarrow>
                 let raw_output = strip (unicode rt) c in
                 (case re_search json_re raw_output of
                    Some span \<Rightarrow>
                      (case json_loads rt span of
                         Some v \<Rightarrow> (v, [prompt ts emotion])
                       | None \<Rightarrow> (JArr [], [prompt ts emotion]))
                  | None \<Rightarrow> (JArr [], [prompt ts emotion])))))"

section \<open>The request handler\<close>

text \<open>
  \<open>data\<close> is \<^verbatim>\<open>request.json\<close>, the decoded JSON body of the POST, of any JSON type (a body
  that the framework cannot decode is answered by the framework before the handler
  reads it, and is not modelled). A response has a status and a body: the error object,
  the plan, or the server's error page for an exception that nothing caught, which has
  status 500. \<open>classified\<close> lists the arguments the classifier was called with and
  \<open>prompts\<close> the prompts sent to the remote model while the request was handled.

  The exceptions that nothing catches:
  \<^item> \<^verbatim>\<open>data.get\<close> on a body that is not an object raises \<^verbatim>\<open>AttributeError\<close>;
  \<^item> \<^verbatim>\<open>text[:500]\<close> raises \<^verbatim>\<open>TypeError\<close> on a number, on \<^verbatim>\<open>true\<close> and on an object;
  \<^item> a list can be sliced, and the slice is handed to the classifier: either the
    classifier raises on it, or \<^verbatim>\<open>re.split\<close> in the task builder then raises
    \<^verbatim>\<open>TypeError\<close> on the list;
  \<^item> an exception of the task builder on a text would be one more (there is none, as
    is proved below).
\<close>

record 'n envelope =
  sentiment :: str
  score :: 'n
  detectedEmotion :: str
  taskCount :: nat
  tasks :: "task list"
  suggestions :: "'n json"
  message :: str

datatype 'n body = Error str | Plan "'n envelope" | Unhandled

record 'n outcome =
  status :: nat
  body :: "'n body"
  classified :: "'n json list"
  prompts :: "str list"

text \<open>The apostrophe of the first message is the code point U+2019.\<close>

definition msg_hectic :: str where
  "msg_hectic = py ''Day looks hectic. I'' @ [0x2019] @ py ''ve suggested some breaks below.''"

definition msg_balanced :: str where
  "msg_balanced = py ''Your plan seems balanced. Here are some gentle wellness suggestions.''"

text \<open>\<^verbatim>\<open>not text\<close>: the values that count as false.\<close>

definition falsy :: "'n runtime \<Rightarrow> 'n json \<Rightarrow> bool" where
  "falsy rt v =
     (case v of
        JNull \<Rightarrow> True
      | JBool b \<Rightarrow> \<not> b
      | JNum n \<Rightarrow> is_zero rt n
      | JStr s \<Rightarrow> s = []
      | JArr xs \<Rightarrow> xs = []
      | JObj kvs \<Rightarrow> kvs = [])"

definition plan_day :: "'n runtime \<Rightarrow> 'n json \<Rightarrow> 'n outcome" where
  "plan_day rt data =
     (case data of
        JObj kvs \<Rightarrow>
          (let text = (case map_of kvs (py ''text'') of None \<Rightarrow> JStr [] | Some v \<Rightarrow> v) in
           if falsy rt text then
             \<lparr>status = 400, body = Error (py ''No text provided''), classified = [], prompts = []\<rparr>
           else
             (case sentiment_pipeline rt of
                None \<Rightarrow>
                  \<lparr>status = 500, body = Error (py ''Sentiment model not loaded''),
                   classified = [], prompts = []\<rparr>
              | Some pipeline \<Rightarrow>
                  (case text of
                     JStr raw \<Rightarrow>
                       (let senti = pipeline (take 500 raw) in
                        (case build_tasks_from_text (unicode rt) raw of
                           Inl e \<Rightarrow>
                             \<lparr>status = 500, body = Unhandled,
                              classified = [JStr (take 500 raw)], prompts = []\<rparr>
                         | Inr ts \<Rightarrow>
                             let workload = length ts;
                                 hectic = (workload \<ge> 8);
                                 emotion = (if senti_label senti = py ''NEGATIVE'' \<or> hectic
                                            then py ''Stressed'' else py ''Balanced'');
                                 (sugg, calls) = generate_dynamic_suggestions rt ts emotion
                             in \<lparr>status = 200,
                                 body = Plan \<lparr>sentiment = senti_label senti,
                                              score = senti_score senti,
                                              detectedEmotion = emotion, taskCount = workload,
                                              tasks = ts, suggestions = sugg,
                                              message = (if hectic then msg_hectic else msg_balanced)\<rparr>,
                                 classified = [JStr (take 500 raw)], prompts = calls\<rparr>))
                   | JArr xs \<Rightarrow>
                       \<lparr>status = 500, body = Unhandled,
                        classified = [JArr (take 500 xs)], prompts = []\<rparr>
                   | _ \<Rightarrow>
                       \<lparr>status = 500, body = Unhandled, classified = [], prompts = []\<rparr>)))
      | _ \<Rightarrow> \<lparr>status = 500, body = Unhandled, classified = [], prompts = []\<rparr>)"

section \<open>Definitions used to state the properties\<close>

text \<open>The field of a body that is an object, and the body whose only field is \<^verbatim>\<open>text\<close>.\<close>

definition field :: "'n json \<Rightarrow> str \<Rightarrow> 'n json option" where
  "field data key = (case data of JObj kvs \<Rightarrow> map_of kvs key | _ \<Rightarrow> None)"

definition request :: "str \<Rightarrow> 'n json" where
  "request t = JObj [(py ''text'', JStr t)]"

text \<open>The JSON type of a value, and \<^verbatim>\<open>data.get("text", "")\<close> for a body that is an
  object.\<close>

definition is_object :: "'n json \<Rightarrow> bool" where
  "is_object data = (case data of JObj kvs \<Rightarrow> True | _ \<Rightarrow> False)"

definition is_string :: "'n json \<Rightarrow> bool" where
  "is_string v = (case v of JStr s \<Rightarrow> True | _ \<Rightarrow> False)"

definition text_of :: "'n json \<Rightarrow> 'n json" where
  "text_of data = (case field data (py ''text'') of None \<Rightarrow> JStr [] | Some v \<Rightarrow> v)"

text \<open>The title and the task that one pass of the loop of \<open>build_tasks_from_text\<close> makes
  from a fragment \<open>s\<close> in which a time expression was found.\<close>

definition title_of :: "ucd \<Rightarrow> str \<Rightarrow> str" where
  "title_of U s =
     (let t = capitalize U (strip U (re_sub_empty (title_re U) s))
      in if t = [] then py ''Task'' else t)"

definition task_of :: "ucd \<Rightarrow> str \<Rightarrow> task" where
  "task_of U s =
     (let tms = parse_time_range U s in
      \<lparr>title = title_of U s, start = Some (hd tms),
       end_time = (if 2 \<le> length tms then Some (tms ! 1) else None)\<rparr>)"

text \<open>
  The outcomes of the remote call that the suggestion generator absorbs: the call raised,
  the text received has no bracketed span, or the span found does not decode.
\<close>

definition call_fails :: "'n runtime \<Rightarrow> completion \<Rightarrow> bool" where
  "call_fails rt out =
     (case out of
        Raises \<Rightarrow> True
      | Content c \<Rightarrow>
          (case re_search json_re (strip (unicode rt) c) of
             None \<Rightarrow> True
           | Some span \<Rightarrow> json_loads rt span = None))"

text \<open>
  An excerpt of the real database, for evaluating the program on concrete texts: the
  no-break space U+00A0 is whitespace, the Arabic-Indic digits U+0660 to U+0669 are
  decimal digits, and U+00C9 and U+00E9 are the capital and the small letter e with
  acute. It agrees with the real database on these code points; every other code point
  above 127 is left without properties, and the texts evaluated below contain none. The
  general theorems hold for every database \<open>U\<close>.
\<close>

definition sample_ucd :: ucd where
  "sample_ucd =
     \<lparr>decimal = (\<lambda>c. 0x660 \<le> c \<and> c \<le> 0x669),
      whitespace = (\<lambda>c. c = 0xA0),
      alnum = (\<lambda>c. c = 0xC9 \<or> c = 0xE9 \<or> (0x660 \<le> c \<and> c \<le> 0x669)),
      title_full = (\<lambda>c. if c = 0xE9 then [0xC9] else [c]),
      lower_full = (\<lambda>s i. if s ! i = 0xC9 then [0xE9] else [s ! i])\<rparr>"

text \<open>
  Concrete runtimes, for evaluating the handler: \<open>offline\<close> has no LLM client, \<open>online out\<close>
  has one that answers every prompt with \<open>out\<close>; the classifier labels every text \<open>lab\<close>,
  with the length of the text it was given as the score.
\<close>

definition offline :: "str \<Rightarrow> nat runtime" where
  "offline lab =
     \<lparr>unicode = sample_ucd, client = None,
      sentiment_pipeline = Some (\<lambda>x. \<lparr>senti_label = lab, senti_score = length x\<rparr>),
      json_loads = (\<lambda>x. None), is_zero = (\<lambda>n. n = 0)\<rparr>"

definition online :: "completion \<Rightarrow> str \<Rightarrow> nat runtime" where
  "online out lab =
     \<lparr>unicode = sample_ucd, client = Some (\<lambda>p. out),
      sentiment_pipeline = Some (\<lambda>x. \<lparr>senti_label = lab, senti_score = length x\<rparr>),
      json_loads = (\<lambda>x. if x = py ''[]'' then Some (JArr []) else None),
      is_zero = (\<lambda>n. n = 0)\<rparr>"

text \<open>
  The three patterns in elementary terms. \<open>split_on\<close> cuts a text at every \<^verbatim>\<open>.\<close>, \<^verbatim>\<open>,\<close>
  and \<^verbatim>\<open>;\<close>. \<open>time_at\<close> reads a time expression at the front of a text: one digit, a
  second digit if there is one, \<^verbatim>\<open>:\<close> and two digits if they follow, then every whitespace
  character that follows, then \<^verbatim>\<open>am\<close> or \<^verbatim>\<open>pm\<close> in either case if it follows; it gives the
  text read and the text left. \<open>times_in\<close> collects the expressions from the left, going on
  after each one. \<open>cut_at_digit\<close> drops a text from its first digit that does not follow a
  word character and has no line feed after it. Digits, whitespace and word characters
  are those of the Unicode database.
\<close>

definition is_sep :: "nat \<Rightarrow> bool" where
  "is_sep c = (c = cp CHR ''.'' \<or> c = cp CHR '','' \<or> c = cp CHR '';'')"

function split_on :: "str \<Rightarrow> str list" where
  "split_on cs =
     (case dropWhile (\<lambda>c. \<not> is_sep c) cs of
        [] \<Rightarrow> [cs]
      | c # rest \<Rightarrow> takeWhile (\<lambda>c. \<not> is_sep c) cs # split_on rest)"
  by pat_completeness auto
termination
proof (relation "measure length")
  show "wf (measure length)" by simp
next
  fix cs :: str and c rest
  assume "dropWhile (\<lambda>c. \<not> is_sep c) cs = c # rest"
  then have "length (c # rest) \<le> length cs"
    by (metis length_dropWhile_le)
  then show "(rest, cs) \<in> measure length" by simp
qed

declare split_on.simps [simp del]

definition digit2 :: "ucd \<Rightarrow> str \<Rightarrow> str \<times> str" where
  "digit2 U cs =
     (case cs of d # r \<Rightarrow> if is_digit U d then ([d], r) else ([], cs) | [] \<Rightarrow> ([], cs))"

definition minutes :: "ucd \<Rightarrow> str \<Rightarrow> str \<times> str" where
  "minutes U cs =
     (case cs of
        c # m1 # m2 # r \<Rightarrow>
          if c = cp CHR '':'' \<and> is_digit U m1 \<and> is_digit U m2 then ([c, m1, m2], r)
          else ([], cs)
      | _ \<Rightarrow> ([], cs))"

definition ampm :: "str \<Rightarrow> str \<times> str" where
  "ampm cs =
     (case cs of
        a # m # r \<Rightarrow>
          if (to_lower a = cp CHR ''a'' \<or> to_lower a = cp CHR ''p'') \<and> to_lower m = cp CHR ''m''
          then ([a, m], r) else ([], cs)
      | _ \<Rightarrow> ([], cs))"

definition time_at :: "ucd \<Rightarrow> str \<Rightarrow> (str \<times> str) option" where
  "time_at U cs =
     (case cs of
        [] \<Rightarrow> None
      | d # r \<Rightarrow>
          if is_digit U d then
            (let (ds, r1) = digit2 U r;
                 (mm, r2) = minutes U r1;
                 ws = takeWhile (is_space U) r2;
                 (sf, r3) = ampm (dropWhile (is_space U) r2)
             in Some (d # ds @ mm @ ws @ sf, r3))
          else None)"

function times_in :: "ucd \<Rightarrow> str \<Rightarrow> str list" where
  "times_in U cs =
     (case time_at U cs of
        Some (m, rest) \<Rightarrow> m # times_in U rest
      | None \<Rightarrow> (case cs of [] \<Rightarrow> [] | c # cs' \<Rightarrow> times_in U cs'))"
  by pat_completeness auto
termination
proof -
  have d: "length (snd (digit2 U cs)) \<le> length cs" for U cs
    by (simp add: digit2_def split: list.splits)
  have m: "length (snd (minutes U cs)) \<le> length cs" for U cs
    by (simp add: minutes_def split: list.splits)
  have a: "length (snd (ampm cs)) \<le> length cs" for cs
    by (simp add: ampm_def split: list.splits)
  have shorter: "length rest < length cs" if "time_at U cs = Some (mat, rest)" for U cs mat rest
  proof -
    from that obtain c r where cs: "cs = c # r"
      and rest: "rest = snd (ampm (dropWhile (is_space U) (snd (minutes U (snd (digit2 U r))))))"
      by (auto simp: time_at_def Let_def split: list.splits if_splits prod.splits)
    have "length rest \<le> length (dropWhile (is_space U) (snd (minutes U (snd (digit2 U r)))))"
      unfolding rest by (rule a)
    also have "\<dots> \<le> length (snd (minutes U (snd (digit2 U r))))"
      by (rule length_dropWhile_le)
    also have "\<dots> \<le> length (snd (digit2 U r))" by (rule m)
    also have "\<dots> \<le> length r" by (rule d)
    finally show ?thesis by (simp add: cs)
  qed
  show ?thesis
    by (relation "measure (\<lambda>(U, cs). length cs)") (auto dest: shorter)
qed

declare times_in.simps [simp del]

fun cut_at_digit :: "ucd \<Rightarrow> nat option \<Rightarrow> str \<Rightarrow> str" where
  "cut_at_digit U p [] = []"
| "cut_at_digit U p (c # cs) =
     (if is_digit U c \<and> \<not> word_at (is_word U) p \<and> nl \<notin> set cs then []
      else c # cut_at_digit U (Some c) cs)"

definition amended_title :: "ucd \<Rightarrow> str \<Rightarrow> str" where
  "amended_title U s =
     (let t = capitalize U (strip U (cut_at_digit U None s)) in if t = [] then py ''Task'' else t)"

text \<open>
  The specification's wording, for comparison with the program: a time expression is one
  or two digits, optionally \<^verbatim>\<open>:\<close> and two digits, optionally \<^verbatim>\<open>am\<close> or \<^verbatim>\<open>pm\<close>; a title is
  the fragment up to its first digit, trimmed, with its first character upper-cased, or
  \<^verbatim>\<open>Task\<close> if that is empty.
\<close>

definition spec_time_shape :: "ucd \<Rightarrow> str \<Rightarrow> bool" where
  "spec_time_shape U s =
     (case s of
        [] \<Rightarrow> False
      | d # r \<Rightarrow> is_digit U d \<and> snd (ampm (snd (minutes U (snd (digit2 U r))))) = [])"

definition upper_first :: "ucd \<Rightarrow> str \<Rightarrow> str" where
  "upper_first U s = (case s of [] \<Rightarrow> [] | c # cs \<Rightarrow> title_at U c @ cs)"

definition spec_title :: "ucd \<Rightarrow> str \<Rightarrow> str" where
  "spec_title U s =
     (let t = upper_first U (strip U (takeWhile (\<lambda>c. \<not> is_digit U c) s))
      in if t = [] then py ''Task'' else t)"

section \<open>The task builder never raises\<close>

lemma unpack2_times:
  "tms \<noteq> [] \<Longrightarrow> unpack2 (take 2 (map Some tms @ [None])) =
     Inr (Some (hd tms), if 2 \<le> length tms then Some (tms ! 1) else None)"
  by (cases tms; cases "tl tms") (auto simp: numeral_2_eq_2)

lemma tasks_loop_map:
  "tasks_loop U ss acc = Inr (acc @ map (task_of U) (filter (\<lambda>s. parse_time_range U s \<noteq> []) ss))"
proof (induction ss arbitrary: acc)
  case Nil
  show ?case by simp
next
  case (Cons s ss)
  show ?case
  proof (cases "parse_time_range U s = []")
    case True
    then show ?thesis by (simp add: Cons)
  next
    case False
    have "tasks_loop U (s # ss) acc = tasks_loop U ss (acc @ [task_of U s])"
      by (simp only: tasks_loop.simps Let_def False if_False unpack2_times [OF False]
            sum.case prod.case task_of_def title_of_def)
    then show ?thesis by (simp add: Cons False)
  qed
qed

lemma build_tasks_map:
  "build_tasks_from_text U raw =
     Inr (map (task_of U) (filter (\<lambda>s. parse_time_range U s \<noteq> []) (sentences U raw)))"
  by (simp add: build_tasks_from_text_def tasks_loop_map)

section \<open>The patterns of the program in elementary terms\<close>

lemma scan_None: "search r p cs = None \<Longrightarrow> scan r p cs = ([], cs)"
  by (simp add: scan.simps)

lemma scan_Some:
  "search r p cs = Some (pre, mat, rest) \<Longrightarrow> mat \<noteq> [] \<Longrightarrow>
     scan r p cs = (case scan r (Some (last mat)) rest of (ms, tail) \<Rightarrow> ((pre, mat) # ms, tail))"
  by (simp add: scan.simps [of r p cs])

lemma search_split_re:
  "search split_re p cs =
     (case dropWhile (\<lambda>c. \<not> is_sep c) cs of
        [] \<Rightarrow> None
      | c # rest \<Rightarrow> Some (takeWhile (\<lambda>c. \<not> is_sep c) cs, [c], rest))"
proof (induction cs arbitrary: p)
  case Nil
  show ?case by (subst search.simps) (simp add: split_re_def)
next
  case (Cons c cs)
  have m: "rmatch split_re p (c # cs) (\<lambda>_ rest. Some rest) = (if is_sep c then Some cs else None)"
    by (simp add: split_re_def is_sep_def py_def)
  show ?case
  proof (cases "is_sep c")
    case True
    then show ?thesis
      by (simp add: search.simps [of split_re p "c # cs"] m)
  next
    case False
    note IH = Cons.IH [of "Some c"]
    show ?thesis
    proof (cases "dropWhile (\<lambda>c. \<not> is_sep c) cs")
      case Nil
      show ?thesis
        using False by (simp add: search.simps [of split_re p "c # cs"] m IH Nil)
    next
      case (Cons d rest)
      show ?thesis
        using False by (simp add: search.simps [of split_re p "c # cs"] m IH Cons)
    qed
  qed
qed

lemma scan_split_re:
  "(case scan split_re p cs of (ms, tail) \<Rightarrow> map fst ms @ [tail]) = split_on cs"
proof (induction cs arbitrary: p rule: split_on.induct)
  case (1 cs)
  show ?case
  proof (cases "dropWhile (\<lambda>c. \<not> is_sep c) cs")
    case Nil
    then have "search split_re p cs = None"
      by (simp only: search_split_re list.case)
    then have "scan split_re p cs = ([], cs)"
      by (rule scan_None)
    moreover have "split_on cs = [cs]"
      by (subst split_on.simps) (simp only: Nil list.case)
    ultimately show ?thesis by simp
  next
    case (Cons c rest)
    then have s: "search split_re p cs = Some (takeWhile (\<lambda>c. \<not> is_sep c) cs, [c], rest)"
      by (simp only: search_split_re list.case)
    have t: "split_on cs = takeWhile (\<lambda>c. \<not> is_sep c) cs # split_on rest"
      by (subst split_on.simps) (simp only: Cons list.case)
    from "1.IH" [OF Cons, of "Some c"] show ?thesis
      by (simp add: scan_Some [OF s] t split: prod.splits)
  qed
qed

lemma re_split_split_re: "re_split split_re raw = split_on raw"
  by (simp add: re_split_def scan_split_re)

lemma digit2_append: "fst (digit2 U cs) @ snd (digit2 U cs) = cs"
  by (simp add: digit2_def split: list.splits)

lemma minutes_append: "fst (minutes U cs) @ snd (minutes U cs) = cs"
  by (simp add: minutes_def split: list.splits)

lemma ampm_append: "fst (ampm cs) @ snd (ampm cs) = cs"
  by (simp add: ampm_def split: list.splits)

lemma time_at_append:
  assumes "time_at U cs = Some (m, rest)"
  shows "cs = m @ rest \<and> m \<noteq> []"
proof -
  from assms obtain d r where cs: "cs = d # r" and d: "is_digit U d"
    by (auto simp: time_at_def split: list.splits if_splits)
  let ?r1 = "snd (digit2 U r)"
  let ?r2 = "snd (minutes U ?r1)"
  let ?r3 = "snd (ampm (dropWhile (is_space U) ?r2))"
  from assms cs d have m: "m = d # fst (digit2 U r) @ fst (minutes U ?r1) @ takeWhile (is_space U) ?r2
      @ fst (ampm (dropWhile (is_space U) ?r2))" and rest: "rest = ?r3"
    by (auto simp: time_at_def Let_def split: prod.splits)
  have "r = fst (digit2 U r) @ ?r1" by (simp add: digit2_append)
  also have "?r1 = fst (minutes U ?r1) @ ?r2" by (simp add: minutes_append)
  also have "?r2 = takeWhile (is_space U) ?r2 @ dropWhile (is_space U) ?r2" by simp
  also have "dropWhile (is_space U) ?r2 = fst (ampm (dropWhile (is_space U) ?r2)) @ ?r3"
    by (simp add: ampm_append)
  finally show ?thesis using cs m rest by simp
qed

lemma star_total:
  "rmatch (Star P) p cs (\<lambda>p' cs'. Some (g cs')) = Some (g (dropWhile P cs))"
  by (induction cs arbitrary: p) simp_all

lemma rmatch_ampm:
  "rmatch (Opt (Alt (Seq (ci (cp CHR ''a'')) (ci (cp CHR ''m''))) (Seq (ci (cp CHR ''p'')) (ci (cp CHR ''m'')))))
     p cs (\<lambda>p' cs'. Some (g cs')) = Some (g (snd (ampm cs)))"
  by (auto simp: ci_def ampm_def split: list.splits)

lemma rmatch_minutes:
  "rmatch (Opt (Seq (lit (cp CHR '':'')) (Seq (Chars (is_digit U)) (Chars (is_digit U)))))
     p cs (\<lambda>p' cs'. Some (g cs')) = Some (g (snd (minutes U cs)))"
  by (auto simp: lit_def minutes_def split: list.splits)

lemma rmatch_digits:
  "rmatch (Seq (Chars (is_digit U)) (Opt (Chars (is_digit U)))) p cs (\<lambda>p' cs'. Some (g cs')) =
     (case cs of [] \<Rightarrow> None | d # r \<Rightarrow> if is_digit U d then Some (g (snd (digit2 U r))) else None)"
  by (auto simp: digit2_def split: list.splits)

lemma rmatch_time_re:
  "rmatch (time_re U) p cs (\<lambda>_ rest. Some rest) = map_option snd (time_at U cs)"
proof -
  have "rmatch (time_re U) p cs (\<lambda>_ rest. Some rest) =
      (case cs of [] \<Rightarrow> None
       | d # r \<Rightarrow> if is_digit U d
           then Some (snd (ampm (dropWhile (is_space U) (snd (minutes U (snd (digit2 U r)))))))
           else None)"
    unfolding time_re_def
    by (simp only: rmatch.simps(2) [of "Seq (Chars (is_digit U)) (Opt (Chars (is_digit U)))"]
          rmatch.simps(2) [of "Opt (Seq (lit (cp CHR '':'')) (Seq (Chars (is_digit U)) (Chars (is_digit U))))"]
          rmatch.simps(2) [of "Star (is_space U)"]
          rmatch_ampm star_total rmatch_minutes rmatch_digits)
  also have "\<dots> = map_option snd (time_at U cs)"
    by (simp add: time_at_def Let_def split: list.splits prod.splits)
  finally show ?thesis .
qed

lemma search_time_re:
  "(search (time_re U) p cs = None \<longrightarrow> times_in U cs = []) \<and>
   (\<forall>pre mat rest. search (time_re U) p cs = Some (pre, mat, rest) \<longrightarrow>
      mat \<noteq> [] \<and> length rest < length cs \<and> times_in U cs = mat # times_in U rest)"
proof (induction cs arbitrary: p)
  case Nil
  have "time_at U [] = None" by (simp add: time_at_def)
  then show ?case
    by (simp add: search.simps [of "time_re U" p "[]"] rmatch_time_re times_in.simps [of U "[]"])
next
  case (Cons c cs)
  show ?case
  proof (cases "time_at U (c # cs)")
    case None
    then have s: "search (time_re U) p (c # cs) =
        map_option (\<lambda>(pre, mat, rest). (c # pre, mat, rest)) (search (time_re U) (Some c) cs)"
      by (simp add: search.simps [of "time_re U" p "c # cs"] rmatch_time_re)
    from None have t: "times_in U (c # cs) = times_in U cs"
      by (simp add: times_in.simps [of U "c # cs"])
    from Cons.IH [of "Some c"] show ?thesis
      by (auto simp: s t)
  next
    case (Some mr)
    obtain m rest where mr: "mr = (m, rest)" by (cases mr)
    from time_at_append [of U "c # cs" m rest] Some mr
    have a: "c # cs = m @ rest" "m \<noteq> []" by simp_all
    then have l: "length (c # cs) = length m + length rest"
      by (metis length_append)
    from Some mr have s: "search (time_re U) p (c # cs) = Some ([], take (length (c # cs) - length rest) (c # cs), rest)"
      by (simp add: search.simps [of "time_re U" p "c # cs"] rmatch_time_re)
    have "take (length (c # cs) - length rest) (c # cs) = m"
      unfolding l by (simp add: a(1))
    with s have s': "search (time_re U) p (c # cs) = Some ([], m, rest)" by simp
    from Some mr have t: "times_in U (c # cs) = m # times_in U rest"
      by (simp add: times_in.simps [of U "c # cs"])
    from a l have "length rest < length (c # cs)" by (cases m) simp_all
    with s' t a(2) show ?thesis by simp
  qed
qed

lemma scan_time_re: "map snd (fst (scan (time_re U) p cs)) = times_in U cs"
proof (induction "length cs" arbitrary: cs p rule: less_induct)
  case less
  show ?case
  proof (cases "search (time_re U) p cs")
    case None
    with search_time_re [of U p cs] show ?thesis
      by (simp add: scan_None)
  next
    case (Some x)
    obtain pre mat rest where x: "x = (pre, mat, rest)" by (cases x)
    with Some search_time_re [of U p cs]
    have f: "mat \<noteq> []" "length rest < length cs" "times_in U cs = mat # times_in U rest"
      by simp_all
    from Some x have s: "search (time_re U) p cs = Some (pre, mat, rest)" by simp
    from less [OF f(2), of "Some (last mat)"] show ?thesis
      by (cases "scan (time_re U) (Some (last mat)) rest") (simp add: scan_Some [OF s f(1)] f(3))
  qed
qed

lemma parse_time_range_times_in: "parse_time_range U s = times_in U s"
  by (simp add: parse_time_range_def re_findall_def scan_time_re)

lemma star_eos:
  "rmatch (Star (\<lambda>c. c \<noteq> nl)) p cs (\<lambda>p' cs'. rmatch Eos p' cs' (\<lambda>_ rest. Some rest)) =
     (if dropWhile (\<lambda>c. c \<noteq> nl) cs = [] \<or> dropWhile (\<lambda>c. c \<noteq> nl) cs = [nl]
      then Some (dropWhile (\<lambda>c. c \<noteq> nl) cs) else None)"
  by (induction cs arbitrary: p) auto

lemma digit_is_word: "is_digit U c \<Longrightarrow> is_word U c"
  by (auto simp: is_word_def is_digit_def split: if_splits)

lemma rmatch_title_re:
  "rmatch (title_re U) p cs (\<lambda>_ rest. Some rest) =
     (case cs of
        [] \<Rightarrow> None
      | c # r \<Rightarrow>
          if is_digit U c \<and> \<not> word_at (is_word U) p \<and>
             (dropWhile (\<lambda>c. c \<noteq> nl) r = [] \<or> dropWhile (\<lambda>c. c \<noteq> nl) r = [nl])
          then Some (dropWhile (\<lambda>c. c \<noteq> nl) r) else None)"
proof (cases cs)
  case Nil
  then show ?thesis by (simp add: title_re_def)
next
  case (Cons c r)
  show ?thesis
    unfolding title_re_def Cons
    by (simp only: rmatch.simps(2) rmatch.simps(1) rmatch.simps(6) star_eos list.case)
      (auto simp: word_at_def first_char_def digit_is_word)
qed

lemma no_final_nl:
  assumes "cs = [] \<or> last cs \<noteq> nl"
  shows "(dropWhile (\<lambda>c. c \<noteq> nl) cs = [] \<or> dropWhile (\<lambda>c. c \<noteq> nl) cs = [nl])
     \<longleftrightarrow> nl \<notin> set cs"
    and "nl \<notin> set cs \<Longrightarrow> dropWhile (\<lambda>c. c \<noteq> nl) cs = []"
proof -
  show "nl \<notin> set cs \<Longrightarrow> dropWhile (\<lambda>c. c \<noteq> nl) cs = []"
    by (induction cs) auto
  have "dropWhile (\<lambda>c. c \<noteq> nl) cs \<noteq> [nl]"
  proof
    assume d: "dropWhile (\<lambda>c. c \<noteq> nl) cs = [nl]"
    have "cs = takeWhile (\<lambda>c. c \<noteq> nl) cs @ dropWhile (\<lambda>c. c \<noteq> nl) cs"
      by simp
    with d have "cs = takeWhile (\<lambda>c. c \<noteq> nl) cs @ [nl]" by simp
    then have "cs \<noteq> []" "last cs = nl"
      by (metis snoc_eq_iff_butlast)+
    with assms show False by simp
  qed
  then show "(dropWhile (\<lambda>c. c \<noteq> nl) cs = [] \<or> dropWhile (\<lambda>c. c \<noteq> nl) cs = [nl])
     \<longleftrightarrow> nl \<notin> set cs"
    by (auto simp: dropWhile_eq_Nil_conv)
qed


lemma search_title_re:
  assumes "cs = [] \<or> last cs \<noteq> nl"
  shows "(search (title_re U) p cs = None \<longrightarrow> cut_at_digit U p cs = cs) \<and>
     (\<forall>pre mat rest. search (title_re U) p cs = Some (pre, mat, rest) \<longrightarrow>
        mat \<noteq> [] \<and> rest = [] \<and> cut_at_digit U p cs = pre)"
  using assms
proof (induction cs arbitrary: p)
  case Nil
  show ?case
    by (simp add: search.simps [of "title_re U" p "[]"] rmatch_title_re)
next
  case (Cons c cs)
  from Cons.prems have tl: "cs = [] \<or> last cs \<noteq> nl"
    by (cases cs) simp_all
  note nf = no_final_nl [OF tl]
  show ?case
  proof (cases "is_digit U c \<and> \<not> word_at (is_word U) p \<and> nl \<notin> set cs")
    case True
    then have "rmatch (title_re U) p (c # cs) (\<lambda>_ rest. Some rest) = Some []"
      by (simp add: rmatch_title_re nf)
    then have "search (title_re U) p (c # cs) = Some ([], c # cs, [])"
      by (simp add: search.simps [of "title_re U" p "c # cs"])
    with True show ?thesis by simp
  next
    case False
    then have "rmatch (title_re U) p (c # cs) (\<lambda>_ rest. Some rest) = None"
      using nf(1) by (auto simp add: rmatch_title_re)
    then have s: "search (title_re U) p (c # cs) =
        map_option (\<lambda>(pre, mat, rest). (c # pre, mat, rest)) (search (title_re U) (Some c) cs)"
      by (simp add: search.simps [of "title_re U" p "c # cs"])
    from False have t: "cut_at_digit U p (c # cs) = c # cut_at_digit U (Some c) cs"
      by auto
    from Cons.IH [OF tl, of "Some c"] show ?thesis
      unfolding s t by auto
  qed
qed

lemma re_sub_title_re:
  assumes "s = [] \<or> last s \<noteq> nl"
  shows "re_sub_empty (title_re U) s = cut_at_digit U None s"
proof (cases "search (title_re U) None s")
  case None
  with search_title_re [OF assms, of U None] show ?thesis
    by (simp add: re_sub_empty_def scan_None)
next
  case (Some x)
  obtain pre mat rest where x: "x = (pre, mat, rest)" by (cases x)
  with Some search_title_re [OF assms, of U None]
  have f: "mat \<noteq> []" "rest = []" "cut_at_digit U None s = pre" by simp_all
  from Some x f(2) have s: "search (title_re U) None s = Some (pre, mat, [])" by simp
  have e: "scan (title_re U) (Some (last mat)) [] = ([], [])"
    by (rule scan_None) (simp add: search.simps [of "title_re U" _ "[]"] rmatch_title_re)
  show ?thesis
    by (simp add: re_sub_empty_def scan_Some [OF s f(1)] e f(3))
qed

lemma strip_last: "strip U s \<noteq> [] \<Longrightarrow> \<not> (is_space U) (last (strip U s))"
proof -
  assume ne: "strip U s \<noteq> []"
  let ?d = "dropWhile (is_space U) (rev (dropWhile (is_space U) s))"
  from ne have d: "?d \<noteq> []" by (simp add: strip_def)
  then have "\<not> (is_space U) (hd ?d)" by (rule hd_dropWhile)
  moreover have "last (strip U s) = hd ?d"
    using d by (simp add: strip_def last_rev)
  ultimately show ?thesis by simp
qed

lemma sentences_fragment:
  "s \<in> set (sentences U raw) \<Longrightarrow> s \<noteq> [] \<and> last s \<noteq> nl"
proof -
  assume "s \<in> set (sentences U raw)"
  then obtain x where "s = strip U x" "strip U x \<noteq> []"
    by (auto simp: sentences_def)
  with strip_last [of U x] show ?thesis
    by (auto simp: is_space_def nl_def)
qed

lemma time_re_consumes:
  "rmatch (time_re U) p cs (\<lambda>_ rest. Some rest) = Some rest \<Longrightarrow> length rest < length cs"
proof -
  assume "rmatch (time_re U) p cs (\<lambda>_ rest. Some rest) = Some rest"
  then obtain mat where "time_at U cs = Some (mat, rest)"
    by (auto simp: rmatch_time_re)
  from time_at_append [OF this] show ?thesis
    by (cases mat) auto
qed

lemma split_re_consumes:
  "rmatch split_re p cs (\<lambda>_ rest. Some rest) = Some rest \<Longrightarrow> length rest < length cs"
  by (auto simp: split_re_def split: list.splits if_splits)

lemma title_re_consumes:
  "rmatch (title_re U) p cs (\<lambda>_ rest. Some rest) = Some rest \<Longrightarrow> length rest < length cs"
proof -
  assume "rmatch (title_re U) p cs (\<lambda>_ rest. Some rest) = Some rest"
  then obtain c r where "cs = c # r" "rest = dropWhile (\<lambda>c. c \<noteq> nl) r"
    by (auto simp: rmatch_title_re split: list.splits if_splits)
  then show ?thesis
    using length_dropWhile_le [of "\<lambda>c. c \<noteq> nl" r] by simp
qed

lemma letter_a:
  "\<not> is_digit U (cp CHR ''a'')" "\<not> is_space U (cp CHR ''a'')" "\<not> is_sep (cp CHR ''a'')"
  by (simp_all add: is_digit_def is_space_def is_sep_def cp_def)

lemma times_in_letters: "times_in U (replicate n (cp CHR ''a'') @ cs) = times_in U cs"
proof (induction n)
  case 0
  show ?case by simp
next
  case (Suc n)
  have "time_at U (cp CHR ''a'' # replicate n (cp CHR ''a'') @ cs) = None"
    by (simp add: time_at_def letter_a)
  then show ?case
    using Suc times_in.simps [of U "cp CHR ''a'' # replicate n (cp CHR ''a'') @ cs"] by simp
qed

lemma split_on_letters:
  "split_on (replicate n (cp CHR ''a'') @ cs)
     = (replicate n (cp CHR ''a'') @ hd (split_on cs)) # tl (split_on cs)"
proof -
  have d: "dropWhile (\<lambda>c. \<not> is_sep c) (replicate n (cp CHR ''a'') @ cs)
      = dropWhile (\<lambda>c. \<not> is_sep c) cs"
    by (rule dropWhile_append2) (simp add: letter_a)
  have t: "takeWhile (\<lambda>c. \<not> is_sep c) (replicate n (cp CHR ''a'') @ cs)
      = replicate n (cp CHR ''a'') @ takeWhile (\<lambda>c. \<not> is_sep c) cs"
    by (rule takeWhile_append2) (simp add: letter_a)
  show ?thesis
  proof (cases "dropWhile (\<lambda>c. \<not> is_sep c) cs")
    case Nil
    show ?thesis
      by (simp only: split_on.simps [of "replicate n (cp CHR ''a'') @ cs"] split_on.simps [of cs]
          d Nil list.case list.sel)
  next
    case (Cons c rest)
    show ?thesis
      by (simp only: split_on.simps [of "replicate n (cp CHR ''a'') @ cs"] split_on.simps [of cs]
          d t Cons list.case list.sel)
  qed
qed

lemma strip_keep:
  assumes "s \<noteq> []" and "\<not> is_space U (hd s)" and "\<not> is_space U (last s)"
  shows "strip U s = s"
proof -
  from assms(1,2) have "dropWhile (is_space U) s = s"
    by (cases s) simp_all
  moreover from assms(1,3) have "dropWhile (is_space U) (rev s) = rev s"
    by (cases "rev s") (simp_all add: last_rev [symmetric] del: last_rev)
  ultimately show ?thesis
    by (simp add: strip_def)
qed

section \<open>The time-expression extractor and the task builder\<close>

lemma title_of_amended:
  assumes "s \<in> set (sentences U raw)"
  shows "title_of U s = amended_title U s"
proof -
  from sentences_fragment [OF assms] have "s = [] \<or> last s \<noteq> nl" by simp
  then show ?thesis
    by (simp add: title_of_def amended_title_def re_sub_title_re)
qed

lemma sentences_split_on:
  "sentences U raw = map (strip U) (filter (\<lambda>s. strip U s \<noteq> []) (split_on raw))"
  by (simp add: sentences_def re_split_split_re)

text \<open>
  Outside ASCII the program follows the Unicode database: a no-break space between the
  digit and \<^verbatim>\<open>pm\<close> is part of the time expression, an Arabic-Indic digit starts one, a
  digit after \<^verbatim>\<open>caf\<close> and e with acute is inside a word and cuts no title, and
  \<^verbatim>\<open>capitalize\<close> turns a first e with acute into its capital.
\<close>

lemma unicode_examples:
  "parse_time_range sample_ucd (py ''3'' @ [0xA0] @ py ''pm'') = [py ''3'' @ [0xA0] @ py ''pm'']"
  "parse_time_range sample_ucd ([0x663] @ py '' pm'') = [[0x663] @ py '' pm'']"
  "title_of sample_ucd (py ''caf'' @ [0xE9] @ py ''3'') = py ''Caf'' @ [0xE9] @ py ''3''"
  "title_of sample_ucd ([0xE9] @ py ''clair at 3'') = [0xC9] @ py ''clair at''"
  by code_simp+

text \<open>
  C7, as amended. The time-expression extractor returns, from the left and without
  overlap, the texts made of one or two digits, then \<^verbatim>\<open>:\<close> and two digits if they follow,
  then every whitespace character that follows (kept in the text returned, also when no
  suffix follows), then \<^verbatim>\<open>am\<close> or \<^verbatim>\<open>pm\<close> in either case if it follows. The digits and
  the whitespace are those of the Unicode database, whatever it is, not only the ASCII
  ones. Nothing is validated or deduplicated, and the empty text yields the empty list.

  As stated (no whitespace in the pattern) the claim fails: from \<^verbatim>\<open>12 to 1\<close> the
  extractor returns \<^verbatim>\<open>12\<close> followed by a space.
\<close>

theorem time_expressions:
  "parse_time_range U s = times_in U s
   \<and> parse_time_range U [] = []
   \<and> parse_time_range U (py ''99:99'') = [py ''99:99'']
   \<and> parse_time_range U (py ''3 PM, 3 pm'') = [py ''3 PM'', py ''3 pm'']
   \<and> parse_time_range U (py ''12 to 1'') = [py ''12 '', py ''1'']"
proof -
  have "parse_time_range U [] = []" "parse_time_range U (py ''99:99'') = [py ''99:99'']"
    "parse_time_range U (py ''3 PM, 3 pm'') = [py ''3 PM'', py ''3 pm'']"
    "parse_time_range U (py ''12 to 1'') = [py ''12 '', py ''1'']"
    by code_simp+
  then show ?thesis by (simp add: parse_time_range_times_in)
qed

theorem time_shape_counterexample:
  "parse_time_range sample_ucd (py ''12 to 1'') = [py ''12 '', py ''1'']
   \<and> \<not> spec_time_shape sample_ucd (py ''12 '') \<and> spec_time_shape sample_ucd (py ''12'')"
  by code_simp

text \<open>
  C9. The task builder never raises, and every task it returns has a start that is not
  null and a title that is not empty; the end can be null.
\<close>

theorem tasks_well_formed:
  "\<exists>ts. build_tasks_from_text U raw = Inr ts \<and> (\<forall>t \<in> set ts. start t \<noteq> None \<and> title t \<noteq> [])"
  by (auto simp: build_tasks_map task_of_def title_of_def Let_def py_def)

theorem tasks_well_formed_witness:
  "\<exists>ts. build_tasks_from_text sample_ucd (py ''12, Call at 3 to 4'') = Inr ts \<and> length ts = 2
     \<and> start (ts ! 0) \<noteq> None \<and> title (ts ! 0) \<noteq> [] \<and> end_time (ts ! 0) = None
     \<and> start (ts ! 1) \<noteq> None \<and> title (ts ! 1) \<noteq> []"
proof -
  have e: "build_tasks_from_text sample_ucd (py ''12, Call at 3 to 4'') =
      Inr [\<lparr>title = py ''Task'', start = Some (py ''12''), end_time = None\<rparr>,
           \<lparr>title = py ''Call at'', start = Some (py ''3 ''), end_time = Some (py ''4'')\<rparr>]"
    by code_simp
  from tasks_well_formed [of sample_ucd "py ''12, Call at 3 to 4''"] e show ?thesis
    by (auto simp: py_def)
qed

text \<open>
  C4, as amended. The task builder cuts the text at \<^verbatim>\<open>.\<close>, \<^verbatim>\<open>,\<close> and \<^verbatim>\<open>;\<close>, trims the
  fragments, drops the empty ones and those with no time expression, and makes one task
  of each fragment left, in order: its start is the first expression and its end the
  second, or null. For \<^verbatim>\<open>Lunch at 12 to 1, Call mom at 3\<close> the starts and ends are
  (\<^verbatim>\<open>12\<close> with the space that follows it, \<^verbatim>\<open>1\<close>) and (\<^verbatim>\<open>3\<close>, null).

  As stated (start \<^verbatim>\<open>12\<close>) the example fails.
\<close>

theorem tasks_from_fragments:
  "build_tasks_from_text U raw =
     Inr (map (task_of U) (filter (\<lambda>s. parse_time_range U s \<noteq> [])
            (map (strip U) (filter (\<lambda>s. strip U s \<noteq> []) (split_on raw)))))
   \<and> start (task_of U s) = Some (hd (parse_time_range U s))
   \<and> end_time (task_of U s) =
       (if 2 \<le> length (parse_time_range U s) then Some (parse_time_range U s ! 1) else None)
   \<and> build_tasks_from_text U (py ''Lunch at 12 to 1, Call mom at 3'') =
       Inr [\<lparr>title = py ''Lunch at'', start = Some (py ''12 ''), end_time = Some (py ''1'')\<rparr>,
            \<lparr>title = py ''Call mom at'', start = Some (py ''3''), end_time = None\<rparr>]"
proof -
  have "build_tasks_from_text U (py ''Lunch at 12 to 1, Call mom at 3'') =
       Inr [\<lparr>title = py ''Lunch at'', start = Some (py ''12 ''), end_time = Some (py ''1'')\<rparr>,
            \<lparr>title = py ''Call mom at'', start = Some (py ''3''), end_time = None\<rparr>]"
    by code_simp
  then show ?thesis
    by (simp add: build_tasks_map sentences_split_on task_of_def Let_def)
qed

theorem example_start_counterexample:
  "map start (projr (build_tasks_from_text sample_ucd (py ''Lunch at 12 to 1, Call mom at 3'')))
     = [Some (py ''12 ''), Some (py ''3'')]
   \<and> map start (projr (build_tasks_from_text sample_ucd (py ''Lunch at 12 to 1, Call mom at 3'')))
     \<noteq> [Some (py ''12''), Some (py ''3'')]"
  by code_simp

text \<open>
  C5, as amended. The title of a task is its fragment cut at the first digit that does not
  follow a word character (a letter, a number or the underscore) and has no line feed
  after it, then trimmed, with the title-case mapping applied to its first character and
  the lower-case mapping to every other character; \<^verbatim>\<open>Task\<close> if that is empty. Digits,
  word characters, whitespace and the two case mappings are those of the Unicode
  database, whatever it is, not only the ASCII ones.

  As stated the claim fails: the other characters are lower-cased (\<^verbatim>\<open>Call Mom at 3\<close>), a
  digit inside a word does not cut (\<^verbatim>\<open>gym5\<close>), and neither does a digit with a line feed
  after it.
\<close>

theorem title_rule:
  "\<exists>ts. build_tasks_from_text U raw = Inr ts
     \<and> map title ts = map (amended_title U) (filter (\<lambda>s. parse_time_range U s \<noteq> []) (sentences U raw))"
proof -
  have "map title (map (task_of U) (filter (\<lambda>s. parse_time_range U s \<noteq> []) (sentences U raw)))
      = map (amended_title U) (filter (\<lambda>s. parse_time_range U s \<noteq> []) (sentences U raw))"
    using title_of_amended [of _ U raw] by (auto simp: task_of_def Let_def)
  then show ?thesis by (simp add: build_tasks_map)
qed

theorem title_counterexample:
  "map title (projr (build_tasks_from_text sample_ucd (py ''Call Mom at 3''))) = [py ''Call mom at'']
   \<and> spec_title sample_ucd (py ''Call Mom at 3'') = py ''Call Mom at''
   \<and> map title (projr (build_tasks_from_text sample_ucd (py ''gym5''))) = [py ''Gym5'']
   \<and> spec_title sample_ucd (py ''gym5'') = py ''Gym''
   \<and> map title (projr (build_tasks_from_text sample_ucd (py ''a 1'' @ [nl] @ py ''b'')))
       = [py ''A 1'' @ [nl] @ py ''b'']
   \<and> spec_title sample_ucd (py ''a 1'' @ [nl] @ py ''b'') = py ''A''"
  by code_simp

text \<open>The two long texts used below: 500 letters followed by \<^verbatim>\<open>x\<close>, and by \<^verbatim>\<open>, b 1\<close>.\<close>

lemma long_texts:
  "build_tasks_from_text sample_ucd (replicate 500 (cp CHR ''a'') @ py ''x'') = Inr []"
  "build_tasks_from_text sample_ucd (replicate 500 (cp CHR ''a'') @ py '', b 1'')
     = Inr [task_of sample_ucd (py ''b 1'')]"
proof -
  let ?a = "cp CHR ''a''" and ?U = sample_ucd
  have s1: "split_on (py ''x'') = [py ''x'']" and s2: "split_on (py '', b 1'') = [[], py '' b 1'']"
    by code_simp+
  have p1: "\<not> is_space ?U (last (py ''x''))" "py ''x'' \<noteq> []"
    "strip ?U (py '' b 1'') = py ''b 1''"
    by code_simp+
  have p2: "times_in ?U (py ''x'') = []" "times_in ?U [] = []" "times_in ?U (py ''b 1'') \<noteq> []"
    by code_simp+
  have q1: "strip ?U (replicate 500 ?a @ py ''x'') = replicate 500 ?a @ py ''x''"
    using p1(1,2) by (intro strip_keep) (simp_all add: letter_a)
  have q2: "strip ?U (replicate 500 ?a) = replicate 500 ?a"
    by (intro strip_keep) (simp_all add: letter_a)
  have n: "replicate 500 ?a \<noteq> []" "py ''b 1'' \<noteq> []" "replicate 500 ?a @ py ''x'' \<noteq> []"
    by (simp_all add: py_def)
  have t1: "times_in ?U (replicate 500 ?a @ py ''x'') = []"
    by (simp add: times_in_letters p2)
  have t2: "times_in ?U (replicate 500 ?a) = []"
    using times_in_letters [of ?U 500 "[]"] p2 by simp
  show "build_tasks_from_text ?U (replicate 500 ?a @ py ''x'') = Inr []"
    by (simp add: build_tasks_map sentences_split_on split_on_letters s1 q1 n
        parse_time_range_times_in t1)
  show "build_tasks_from_text ?U (replicate 500 ?a @ py '', b 1'') = Inr [task_of ?U (py ''b 1'')]"
    by (simp add: build_tasks_map sentences_split_on split_on_letters s2 q2 p1 n
        parse_time_range_times_in t2 p2)
qed

section \<open>The request handler\<close>

lemma plan_day_ok:
  assumes "field data (py ''text'') = Some (JStr raw)" and "raw \<noteq> []"
    and "sentiment_pipeline rt = Some pipeline"
    and "build_tasks_from_text (unicode rt) raw = Inr ts"
  shows "plan_day rt data =
     \<lparr>status = 200,
      body = Plan \<lparr>sentiment = senti_label (pipeline (take 500 raw)),
                   score = senti_score (pipeline (take 500 raw)),
                   detectedEmotion =
                     (if senti_label (pipeline (take 500 raw)) = py ''NEGATIVE'' \<or> 8 \<le> length ts
                      then py ''Stressed'' else py ''Balanced''),
                   taskCount = length ts, tasks = ts,
                   suggestions = fst (generate_dynamic_suggestions rt ts
                       (if senti_label (pipeline (take 500 raw)) = py ''NEGATIVE'' \<or> 8 \<le> length ts
                        then py ''Stressed'' else py ''Balanced'')),
                   message = (if 8 \<le> length ts then msg_hectic else msg_balanced)\<rparr>,
      classified = [JStr (take 500 raw)],
      prompts = snd (generate_dynamic_suggestions rt ts
                       (if senti_label (pipeline (take 500 raw)) = py ''NEGATIVE'' \<or> 8 \<le> length ts
                        then py ''Stressed'' else py ''Balanced''))\<rparr>"
proof -
  from assms(1) obtain kvs where d: "data = JObj kvs" "map_of kvs (py ''text'') = Some (JStr raw)"
    by (auto simp: field_def split: json.splits)
  with assms(2,3,4) show ?thesis
    by (simp add: plan_day_def falsy_def Let_def split: prod.splits)
qed

text \<open>
  C2, as amended. A POST to \<^verbatim>\<open>/api/plan\<close> whose body decodes as JSON is answered
  \<^item> with status 500 and the server's error page when the body is not an object
    (\<^verbatim>\<open>data.get\<close> raises);
  \<^item> otherwise with status 400 and the error \<^verbatim>\<open>No text provided\<close> when the \<^verbatim>\<open>text\<close>
    field is absent or counts as false (the empty text, \<^verbatim>\<open>null\<close>, \<^verbatim>\<open>false\<close>, zero, the
    empty list, the empty object);
  \<^item> otherwise with status 500 and the error \<^verbatim>\<open>Sentiment model not loaded\<close> when the
    sentiment classifier failed to load;
  \<^item> otherwise with status 200 and the plan when \<^verbatim>\<open>text\<close> is a string;
  \<^item> otherwise with status 500 and the server's error page (an exception is raised on a
    \<^verbatim>\<open>text\<close> that is not a string).

  As stated the claim fails: with the classifier loaded, the body \<^verbatim>\<open>{"text": 123}\<close> is
  answered with status 500 and not with the plan, and so is a body that is a list.
\<close>

theorem plan_day_responses:
  "(let out = plan_day rt data in
    if \<not> is_object data then
      status out = 500 \<and> body out = Unhandled
    else if falsy rt (text_of data) then
      status out = 400 \<and> body out = Error (py ''No text provided'')
    else if sentiment_pipeline rt = None then
      status out = 500 \<and> body out = Error (py ''Sentiment model not loaded'')
    else if is_string (text_of data) then
      status out = 200 \<and> (\<exists>env. body out = Plan env)
    else status out = 500 \<and> body out = Unhandled)"
proof (cases data)
  case (JObj kvs)
  show ?thesis
  proof (cases "falsy rt (text_of data)")
    case True
    with JObj show ?thesis
      by (simp add: plan_day_def is_object_def text_of_def field_def Let_def)
  next
    case False
    note nf = False
    show ?thesis
    proof (cases "sentiment_pipeline rt")
      case None
      with JObj nf show ?thesis
        by (simp add: plan_day_def is_object_def text_of_def field_def Let_def)
    next
      case (Some pipeline)
      show ?thesis
      proof (cases "text_of data")
        case (JStr raw)
        with JObj nf Some show ?thesis
          by (simp add: plan_day_def is_object_def is_string_def text_of_def field_def Let_def
              build_tasks_map split: prod.splits)
      qed (use JObj nf Some in
          \<open>simp_all add: plan_day_def is_object_def is_string_def text_of_def field_def Let_def\<close>)
    qed
  qed
qed (simp_all add: plan_day_def is_object_def Let_def)

theorem plan_day_responses_counterexample:
  "sentiment_pipeline (offline (py ''POSITIVE'')) \<noteq> None
   \<and> \<not> falsy (offline (py ''POSITIVE'')) (JNum 123)
   \<and> status (plan_day (offline (py ''POSITIVE'')) (JObj [(py ''text'', JNum 123)])) = 500
   \<and> body (plan_day (offline (py ''POSITIVE'')) (JObj [(py ''text'', JNum 123)])) = Unhandled
   \<and> status (plan_day (offline (py ''POSITIVE'')) (JArr [JStr (py ''text'')])) = 500
   \<and> body (plan_day (offline (py ''POSITIVE'')) (JArr [JStr (py ''text'')])) = Unhandled"
  by (simp add: plan_day_def offline_def falsy_def Let_def)

text \<open>
  C3. In a successful request the emotion is \<^verbatim>\<open>Stressed\<close> exactly when the sentiment label
  is \<^verbatim>\<open>NEGATIVE\<close> or there are at least 8 tasks, and \<^verbatim>\<open>Balanced\<close> otherwise; replacing
  the scores the classifier returns by any others leaves the emotion unchanged.
\<close>

theorem emotion_rule:
  assumes "field data (py ''text'') = Some (JStr raw)" and "raw \<noteq> []"
    and "sentiment_pipeline rt = Some pipeline"
  shows "\<exists>env ts. status (plan_day rt data) = 200 \<and> body (plan_day rt data) = Plan env
     \<and> build_tasks_from_text (unicode rt) raw = Inr ts
     \<and> sentiment env = senti_label (pipeline (take 500 raw)) \<and> taskCount env = length ts
     \<and> (detectedEmotion env = py ''Stressed'' \<longleftrightarrow> (sentiment env = py ''NEGATIVE'' \<or> 8 \<le> taskCount env))
     \<and> (detectedEmotion env = py ''Balanced'' \<longleftrightarrow> \<not> (sentiment env = py ''NEGATIVE'' \<or> 8 \<le> taskCount env))
     \<and> (\<forall>sc. \<exists>env'. body (plan_day (rt\<lparr>sentiment_pipeline := Some (\<lambda>x. (pipeline x)\<lparr>senti_score := sc x\<rparr>)\<rparr>) data) = Plan env'
            \<and> detectedEmotion env' = detectedEmotion env)"
proof -
  obtain ts where ts: "build_tasks_from_text (unicode rt) raw = Inr ts"
    by (simp add: build_tasks_map)
  have ne: "py ''Stressed'' \<noteq> py ''Balanced''"
    by (simp add: py_def cp_def)
  note a = plan_day_ok [of data raw rt pipeline ts, OF assms ts]
  have b: "\<exists>env'. body (plan_day (rt\<lparr>sentiment_pipeline := Some (\<lambda>x. (pipeline x)\<lparr>senti_score := sc x\<rparr>)\<rparr>) data) = Plan env'
            \<and> detectedEmotion env' = (if senti_label (pipeline (take 500 raw)) = py ''NEGATIVE'' \<or> 8 \<le> length ts
                                      then py ''Stressed'' else py ''Balanced'')" for sc
  proof -
    have "sentiment_pipeline (rt\<lparr>sentiment_pipeline := Some (\<lambda>x. (pipeline x)\<lparr>senti_score := sc x\<rparr>)\<rparr>)
            = Some (\<lambda>x. (pipeline x)\<lparr>senti_score := sc x\<rparr>)"
      by simp
    moreover have "build_tasks_from_text
        (unicode (rt\<lparr>sentiment_pipeline := Some (\<lambda>x. (pipeline x)\<lparr>senti_score := sc x\<rparr>)\<rparr>)) raw = Inr ts"
      using ts by simp
    ultimately show ?thesis
      using plan_day_ok [of data raw _ _ ts, OF assms(1,2)] by simp
  qed
  show ?thesis
    using ts b ne by (simp add: a)
qed

theorem emotion_rule_witness:
  "\<exists>env. body (plan_day (offline (py ''POSITIVE'')) (request (py ''a 1,b 2,c 3,d 4,e 5,f 6,g 7,h 8''))) = Plan env
     \<and> sentiment env = py ''POSITIVE'' \<and> taskCount env = 8 \<and> detectedEmotion env = py ''Stressed''"
proof -
  have ts: "length (projr (build_tasks_from_text sample_ucd (py ''a 1,b 2,c 3,d 4,e 5,f 6,g 7,h 8''))) = 8"
    by code_simp
  have ne: "py ''a 1,b 2,c 3,d 4,e 5,f 6,g 7,h 8'' \<noteq> []"
    by (simp add: py_def)
  show ?thesis
    using emotion_rule [of "request (py ''a 1,b 2,c 3,d 4,e 5,f 6,g 7,h 8'')" "py ''a 1,b 2,c 3,d 4,e 5,f 6,g 7,h 8''"
        "offline (py ''POSITIVE'')" "\<lambda>x. \<lparr>senti_label = py ''POSITIVE'', senti_score = length x\<rparr>"] ts ne
    by (auto simp: request_def offline_def field_def)
qed

text \<open>
  C10. In every response with status 200, \<open>taskCount\<close> is the length of \<open>tasks\<close>, and the
  message is one of two distinct fixed texts, chosen by whether \<open>taskCount\<close> is at least 8.
\<close>

theorem envelope_count_message:
  assumes "status (plan_day rt data) = 200"
  shows "\<exists>env. body (plan_day rt data) = Plan env \<and> taskCount env = length (tasks env)
     \<and> message env = (if 8 \<le> taskCount env then msg_hectic else msg_balanced)
     \<and> msg_hectic \<noteq> msg_balanced"
proof -
  have "msg_hectic \<noteq> msg_balanced"
    by (simp add: msg_hectic_def msg_balanced_def py_def cp_def)
  with assms show ?thesis
    by (auto simp: plan_day_def Let_def build_tasks_map
        split: json.splits option.splits prod.splits if_splits)
qed

theorem envelope_count_message_witness:
  "status (plan_day (offline (py ''POSITIVE'')) (request (py ''Call at 3''))) = 200 \<and>
   (\<exists>env. body (plan_day (offline (py ''POSITIVE'')) (request (py ''Call at 3''))) = Plan env
      \<and> taskCount env = length (tasks env) \<and> message env = msg_balanced)"
proof -
  have ne: "py ''Call at 3'' \<noteq> []"
    by (simp add: py_def)
  have s: "status (plan_day (offline (py ''POSITIVE'')) (request (py ''Call at 3''))) = 200"
    using ne
    by (simp add: plan_day_def Let_def build_tasks_map offline_def request_def falsy_def
        split: prod.splits)
  have n: "length (projr (build_tasks_from_text sample_ucd (py ''Call at 3''))) = 1"
    by code_simp
  have "taskCount env = 1"
    if "body (plan_day (offline (py ''POSITIVE'')) (request (py ''Call at 3''))) = Plan env" for env
    using that n ne
    by (auto simp: plan_day_def Let_def build_tasks_map offline_def request_def falsy_def
        split: prod.splits)
  with envelope_count_message [OF s] s show ?thesis by auto
qed

section \<open>The suggestion generator\<close>

text \<open>The span searched in the reply runs from the first \<^verbatim>\<open>[\<close> to the last \<^verbatim>\<open>]\<close> after it,
  across line feeds.\<close>

lemma json_re_examples:
  "re_search json_re (py ''x [1] y [2] z'') = Some (py ''[1] y [2]'')"
  "re_search json_re (py ''['' @ [nl] @ py ''1]]'') = Some (py ''['' @ [nl] @ py ''1]]'')"
  "re_search json_re (py ''] ['') = None"
  "re_search json_re (py ''no list'') = None"
  by code_simp+

lemma call_made:
  "ts \<noteq> [] \<Longrightarrow> client rt = Some create \<Longrightarrow>
     snd (generate_dynamic_suggestions rt ts emotion) = [prompt ts emotion]"
  by (simp add: generate_dynamic_suggestions_def Let_def
      split: completion.splits option.splits)

text \<open>
  C6. With an empty task list, or with no LLM client, the suggestion generator returns the
  empty list and sends no prompt.
\<close>

theorem no_call_without_tasks_or_client:
  assumes "ts = [] \<or> client rt = None"
  shows "generate_dynamic_suggestions rt ts emotion = (JArr [], [])"
  using assms by (auto simp: generate_dynamic_suggestions_def)

theorem no_call_without_tasks_or_client_witness:
  "generate_dynamic_suggestions (online (Content (py ''[]'')) (py ''POSITIVE'')) [] (py ''Balanced'') = (JArr [], [])
   \<and> generate_dynamic_suggestions (offline (py ''POSITIVE'')) [task_of sample_ucd (py ''Call at 3'')] (py ''Balanced'') = (JArr [], [])"
  using no_call_without_tasks_or_client [of "[]" "online (Content (py ''[]'')) (py ''POSITIVE'')" "py ''Balanced''"]
    no_call_without_tasks_or_client [of "[task_of sample_ucd (py ''Call at 3'')]" "offline (py ''POSITIVE'')" "py ''Balanced''"]
  by (simp add: offline_def)

text \<open>
  C1. When the remote call raises, or its text has no bracketed span, or the span does not
  decode, the suggestion generator returns the empty list; a request whose calls all end
  so is still answered with status 200 and empty suggestions.
\<close>

theorem llm_failure_absorbed:
  assumes "client rt = Some create"
  shows "(call_fails rt (create (prompt ts emotion)) \<longrightarrow>
            fst (generate_dynamic_suggestions rt ts emotion) = JArr [])
     \<and> (field data (py ''text'') = Some (JStr raw) \<and> raw \<noteq> [] \<and> sentiment_pipeline rt = Some pipeline
          \<and> (\<forall>p \<in> set (prompts (plan_day rt data)). call_fails rt (create p)) \<longrightarrow>
          status (plan_day rt data) = 200
          \<and> (\<exists>env. body (plan_day rt data) = Plan env \<and> suggestions env = JArr []))"
proof (rule conjI; rule impI)
  assume "call_fails rt (create (prompt ts emotion))"
  with assms show "fst (generate_dynamic_suggestions rt ts emotion) = JArr []"
    by (auto simp: generate_dynamic_suggestions_def call_fails_def Let_def
        split: completion.splits option.splits)
next
  assume h: "field data (py ''text'') = Some (JStr raw) \<and> raw \<noteq> [] \<and> sentiment_pipeline rt = Some pipeline
          \<and> (\<forall>p \<in> set (prompts (plan_day rt data)). call_fails rt (create p))"
  obtain ts' where ts': "build_tasks_from_text (unicode rt) raw = Inr ts'"
    by (simp add: build_tasks_map)
  define em where "em = (if senti_label (pipeline (take 500 raw)) = py ''NEGATIVE'' \<or> 8 \<le> length ts'
                                      then py ''Stressed'' else py ''Balanced'')"
  from h have ok: "plan_day rt data =
     \<lparr>status = 200,
      body = Plan \<lparr>sentiment = senti_label (pipeline (take 500 raw)),
                   score = senti_score (pipeline (take 500 raw)),
                   detectedEmotion = em, taskCount = length ts', tasks = ts',
                   suggestions = fst (generate_dynamic_suggestions rt ts' em),
                   message = (if 8 \<le> length ts' then msg_hectic else msg_balanced)\<rparr>,
      classified = [JStr (take 500 raw)],
      prompts = snd (generate_dynamic_suggestions rt ts' em)\<rparr>"
    unfolding em_def using plan_day_ok [of data raw rt pipeline ts'] ts' by blast
  have "fst (generate_dynamic_suggestions rt ts' em) = JArr []"
  proof (cases "ts' = []")
    case True
    then show ?thesis by (simp add: generate_dynamic_suggestions_def)
  next
    case False
    with call_made [OF False assms] h ok have "call_fails rt (create (prompt ts' em))"
      by simp
    with assms show ?thesis
      by (auto simp: generate_dynamic_suggestions_def call_fails_def Let_def
          split: completion.splits option.splits)
  qed
  with ok show "status (plan_day rt data) = 200
          \<and> (\<exists>env. body (plan_day rt data) = Plan env \<and> suggestions env = JArr [])"
    by simp
qed

theorem llm_failure_absorbed_witness:
  "call_fails (online (Content (py ''sorry'')) (py ''POSITIVE'')) (Content (py ''sorry''))
   \<and> fst (generate_dynamic_suggestions (online (Content (py ''sorry'')) (py ''POSITIVE''))
          [task_of sample_ucd (py ''Call at 3'')] (py ''Balanced'')) = JArr []
   \<and> prompts (plan_day (online (Content (py ''sorry'')) (py ''POSITIVE'')) (request (py ''Call at 3'')))
        = [prompt [task_of sample_ucd (py ''Call at 3'')] (py ''Balanced'')]
   \<and> status (plan_day (online (Content (py ''sorry'')) (py ''POSITIVE'')) (request (py ''Call at 3''))) = 200
   \<and> (\<exists>env. body (plan_day (online (Content (py ''sorry'')) (py ''POSITIVE'')) (request (py ''Call at 3''))) = Plan env
          \<and> suggestions env = JArr [])"
proof -
  let ?rt = "online (Content (py ''sorry'')) (py ''POSITIVE'')"
  let ?p = "\<lambda>x::str. \<lparr>senti_label = py ''POSITIVE'', senti_score = length x\<rparr>"
  have c: "client ?rt = Some (\<lambda>p. Content (py ''sorry''))"
    by (simp add: online_def)
  have u: "unicode ?rt = sample_ucd"
    by (simp add: online_def)
  have sp: "sentiment_pipeline ?rt = Some ?p"
    by (simp add: online_def)
  have s: "re_search json_re (strip sample_ucd (py ''sorry'')) = None"
    by code_simp
  have f: "call_fails ?rt (Content (py ''sorry''))"
    by (simp add: call_fails_def s u)
  have t: "build_tasks_from_text sample_ucd (py ''Call at 3'') = Inr [task_of sample_ucd (py ''Call at 3'')]"
    by code_simp
  have ne: "py ''Call at 3'' \<noteq> []" "py ''POSITIVE'' \<noteq> py ''NEGATIVE''"
    by (simp_all add: py_def cp_def)
  have r: "field (request (py ''Call at 3'') :: nat json) (py ''text'') = Some (JStr (py ''Call at 3''))"
    by (simp add: request_def field_def)
  have p: "prompts (plan_day ?rt (request (py ''Call at 3'')))
      = [prompt [task_of sample_ucd (py ''Call at 3'')] (py ''Balanced'')]"
    using plan_day_ok [of "request (py ''Call at 3'')" "py ''Call at 3''" ?rt ?p
        "[task_of sample_ucd (py ''Call at 3'')]", OF r ne(1) sp]
      call_made [of "[task_of sample_ucd (py ''Call at 3'')]" ?rt "\<lambda>p. Content (py ''sorry'')" "py ''Balanced''"]
      t c u ne(2)
    by simp
  from llm_failure_absorbed [where rt = ?rt and create = "\<lambda>p. Content (py ''sorry'')"
      and ts = "[task_of sample_ucd (py ''Call at 3'')]" and emotion = "py ''Balanced''"
      and data = "request (py ''Call at 3'')" and raw = "py ''Call at 3''"
      and pipeline = ?p, OF c] f p r ne(1) sp
  show ?thesis
    by simp
qed

text \<open>
  C8. The classifier is given exactly the first 500 characters of the text and the task
  builder the whole text; a second text with the same first 500 characters gets the same
  label and score.
\<close>

theorem sentiment_on_prefix:
  assumes "field data (py ''text'') = Some (JStr raw)" and "raw \<noteq> []"
    and "sentiment_pipeline rt = Some pipeline"
  shows "classified (plan_day rt data) = [JStr (take 500 raw)]
     \<and> (\<exists>env ts. body (plan_day rt data) = Plan env
           \<and> sentiment env = senti_label (pipeline (take 500 raw))
           \<and> score env = senti_score (pipeline (take 500 raw))
           \<and> build_tasks_from_text (unicode rt) raw = Inr ts \<and> tasks env = ts
           \<and> (\<forall>data' raw'. field data' (py ''text'') = Some (JStr raw') \<and> raw' \<noteq> []
                   \<and> take 500 raw' = take 500 raw \<longrightarrow>
                 (\<exists>env'. body (plan_day rt data') = Plan env'
                    \<and> sentiment env' = sentiment env \<and> score env' = score env)))"
proof -
  obtain ts where ts: "build_tasks_from_text (unicode rt) raw = Inr ts"
    by (simp add: build_tasks_map)
  note a = plan_day_ok [of data raw rt pipeline ts, OF assms ts]
  have b: "\<exists>env'. body (plan_day rt data') = Plan env'
        \<and> sentiment env' = senti_label (pipeline (take 500 raw))
        \<and> score env' = senti_score (pipeline (take 500 raw))"
    if "field data' (py ''text'') = Some (JStr raw')" and "raw' \<noteq> []" and "take 500 raw' = take 500 raw"
    for data' :: "'a json" and raw'
  proof -
    obtain ts' where ts': "build_tasks_from_text (unicode rt) raw' = Inr ts'"
      by (simp add: build_tasks_map)
    from plan_day_ok [of data' raw' rt pipeline ts', OF that(1,2) assms(3) ts'] that(3)
    show ?thesis by simp
  qed
  have "\<forall>(data' :: 'a json) raw'. field data' (py ''text'') = Some (JStr raw') \<and> raw' \<noteq> []
                   \<and> take 500 raw' = take 500 raw \<longrightarrow>
                 (\<exists>env'. body (plan_day rt data') = Plan env'
        \<and> sentiment env' = senti_label (pipeline (take 500 raw))
        \<and> score env' = senti_score (pipeline (take 500 raw)))"
    using b by blast
  then show ?thesis
    using ts by (simp add: a)
qed

theorem sentiment_on_prefix_witness:
  "take 500 (replicate 500 (cp CHR ''a'') @ py '', b 1'') = take 500 (replicate 500 (cp CHR ''a'') @ py ''x'')
   \<and> (\<exists>env env'.
         body (plan_day (offline (py ''POSITIVE'')) (request (replicate 500 (cp CHR ''a'') @ py ''x''))) = Plan env
       \<and> body (plan_day (offline (py ''POSITIVE'')) (request (replicate 500 (cp CHR ''a'') @ py '', b 1''))) = Plan env'
       \<and> sentiment env' = sentiment env \<and> score env' = score env \<and> score env = 500
       \<and> tasks env = [] \<and> tasks env' = [task_of sample_ucd (py ''b 1'')])"
proof -
  let ?t = "replicate 500 (cp CHR ''a'') @ py ''x''" and ?t' = "replicate 500 (cp CHR ''a'') @ py '', b 1''"
  let ?p = "\<lambda>x::str. \<lparr>senti_label = py ''POSITIVE'', senti_score = length x\<rparr>"
  let ?rt = "offline (py ''POSITIVE'')"
  have e: "take 500 ?t' = take 500 ?t" by simp
  have n: "?t \<noteq> []" "?t' \<noteq> []" by simp_all
  have u: "unicode ?rt = sample_ucd"
    by (simp add: offline_def)
  note t = long_texts(1) and t' = long_texts(2)
  have r: "field (request ?t :: nat json) (py ''text'') = Some (JStr ?t)"
    "field (request ?t' :: nat json) (py ''text'') = Some (JStr ?t')"
    by (simp_all add: request_def field_def)
  have sp: "sentiment_pipeline ?rt = Some ?p"
    by (simp add: offline_def)
  from sentiment_on_prefix [of "request ?t" ?t ?rt ?p, OF r(1) n(1) sp]
  obtain env where env: "body (plan_day ?rt (request ?t)) = Plan env"
      "sentiment env = senti_label (?p (take 500 ?t))" "score env = senti_score (?p (take 500 ?t))"
      "tasks env = []"
      and all: "\<forall>(data' :: nat json) raw'. field data' (py ''text'') = Some (JStr raw') \<and> raw' \<noteq> []
                   \<and> take 500 raw' = take 500 ?t \<longrightarrow>
                 (\<exists>env'. body (plan_day ?rt data') = Plan env'
                    \<and> sentiment env' = sentiment env \<and> score env' = score env)"
    using t u by auto
  from all r(2) n(2) e
  obtain env' where env': "body (plan_day ?rt (request ?t')) = Plan env'"
      "sentiment env' = sentiment env" "score env' = score env"
    by blast
  from sentiment_on_prefix [of "request ?t'" ?t' ?rt ?p, OF r(2) n(2) sp] t' u env'(1)
  have "tasks env' = [task_of sample_ucd (py ''b 1'')]" by auto
  with env env' show ?thesis by (intro conjI exI [of _ env] exI [of _ env']) simp_all
qed

end
